theory Spec2Isabelle
  imports Complex_Main
begin

section \<open>The photobooth controller of \<^verbatim>\<open>photobooth.py\<close>\<close>

text \<open>
  The module keeps its state in global variables, changed by two entry points: \<^verbatim>\<open>update(dt)\<close>,
  called by the main loop, and \<^verbatim>\<open>button_event\<close>, the GPIO callback. The model passes the
  globals as a record and returns them updated. Whatever the module does to the outside
  (GPIO calls, subprocess calls, lines printed) is appended to a trace, in program order.

  Modelling decisions:
  \<^item> Time values are exact rationals. \<^verbatim>\<open>update\<close> accepts any Python number; the main loop
    passes floats, whose rounding is not modelled.
  \<^item> A call of \<^verbatim>\<open>update\<close> or \<^verbatim>\<open>button_event\<close> runs to its end before the next one starts.
  \<^item> \<^verbatim>\<open>subprocess.Popen\<close> is taken to succeed, and \<^verbatim>\<open>terminate\<close>/\<^verbatim>\<open>wait\<close> to return.
    \<^verbatim>\<open>subprocess.check_call\<close> may fail: its outcome is an input of the call.
  \<^item> A child process may exit by itself at any moment; this is an event of the environment.
\<close>

subsection \<open>Data\<close>

datatype States = IDLE | COUNTDOWN | PRINT_CHECK | SLEEP

text \<open>Class \<^verbatim>\<open>LED\<close>: the pin and the cached level.\<close>

record LED =
  pin :: nat
  is_on :: bool

text \<open>The operating-system process behind a \<^verbatim>\<open>Popen\<close> object.\<close>

datatype process = Running | Exited

text \<open>
  The three kinds of child process the module spawns with \<^verbatim>\<open>Popen\<close>. Only the first and
  the last are kept in a global; the \<^verbatim>\<open>ffmpeg\<close> process is spawned and forgotten.
\<close>

datatype child = Video_feed | Video_render | Photo_preview

datatype direction = IN | OUT

datatype effect =
    GPIO_setboard
  | GPIO_setmode
  | GPIO_setup nat direction
  | GPIO_output nat nat
  | GPIO_add_event_detect nat nat
  | Popen child "string list"
  | Terminate child
  | Wait child
  | Check_call "string list"
  | Print string
  | Call_print_photo "string option"

datatype error = AttributeError | CalledProcessError | RuntimeError string

record globals =
  BUTTON_LED :: "LED option"
  CURRENT_STATE :: States
  TOTAL_TIME :: rat
  STATE_START :: rat
  CURRENT_PHOTO_PATH :: "string option"
  VIDEO_FEED_POPEN :: "process option"
  PHOTO_PREVIEW_POPEN :: "process option"
  trace :: "effect list"

text \<open>
  A call either returns a value or raises; in both cases the globals are left as the call
  changed them up to that point.
\<close>

datatype 'a outcome = Returned 'a globals | Raised error globals

fun state_of :: "'a outcome \<Rightarrow> globals" where
  "state_of (Returned _ g) = g"
| "state_of (Raised _ g) = g"

fun raised :: "'a outcome \<Rightarrow> error option" where
  "raised (Returned _ g) = None"
| "raised (Raised err g) = Some err"

fun and_then :: "'a outcome \<Rightarrow> ('a \<Rightarrow> globals \<Rightarrow> 'b outcome) \<Rightarrow> 'b outcome" where
  "and_then (Returned x g) k = k x g"
| "and_then (Raised e g) k = Raised e g"

text \<open>What \<^verbatim>\<open>take_photo\<close> reads from outside: the local time and whether \<^verbatim>\<open>gphoto2\<close> succeeds.\<close>

record env =
  tm_mday :: nat
  tm_hour :: nat
  tm_min :: nat
  tm_sec :: nat
  capture_ok :: bool

subsection \<open>Constants\<close>

definition BOUNCETIME :: nat where "BOUNCETIME = 200"
definition BLINK_PERIOD :: rat where "BLINK_PERIOD = 1"
definition COUNTDOWN_DURATION :: rat where "COUNTDOWN_DURATION = 8"
definition PRINT_CHECK_DURATION :: rat where "PRINT_CHECK_DURATION = 10"
definition TIME_BEFORE_SLEEP :: rat where "TIME_BEFORE_SLEEP = 30"
definition PIN_LED_BUTTON :: nat where "PIN_LED_BUTTON = 7"
definition PIN_BUTTON :: nat where "PIN_BUTTON = 15"

definition PIN_SEG_DISPLAY :: "(char \<times> nat) list" where
  "PIN_SEG_DISPLAY =
     [(CHR ''A'', 16), (CHR ''B'', 18), (CHR ''C'', 22), (CHR ''D'', 26),
      (CHR ''E'', 29), (CHR ''F'', 31), (CHR ''G'', 32), (CHR ''H'', 33)]"

text \<open>The module-level assignments: the globals when the module has been loaded.\<close>

definition module_globals :: globals where
  "module_globals =
     \<lparr>BUTTON_LED = None, CURRENT_STATE = SLEEP, TOTAL_TIME = 0, STATE_START = 0,
      CURRENT_PHOTO_PATH = None, VIDEO_FEED_POPEN = None, PHOTO_PREVIEW_POPEN = None,
      trace = []\<rparr>"

subsection \<open>Python helpers\<close>

text \<open>\<^verbatim>\<open>a % b\<close> on numbers, for a divisor that is not zero: the result has the divisor's sign.\<close>

definition py_mod :: "rat \<Rightarrow> rat \<Rightarrow> rat" where
  "py_mod a b = a - b * of_int \<lfloor>a / b\<rfloor>"

text \<open>The decimal digit \<open>d\<close>; only used with \<open>d < 10\<close>.\<close>

definition digit_char :: "nat \<Rightarrow> char" where
  "digit_char d = ''0123456789'' ! d"

text \<open>\<^verbatim>\<open>"{}".format(n)\<close> for a natural number: decimal, no padding.\<close>

fun py_str :: "nat \<Rightarrow> string" where
  "py_str n = (if n < 10 then [digit_char n] else py_str (n div 10) @ [digit_char (n mod 10)])"

declare py_str.simps [simp del]

subsection \<open>The LED\<close>

definition emit :: "effect list \<Rightarrow> globals \<Rightarrow> globals" where
  "emit es g = g\<lparr>trace := trace g @ es\<rparr>"

text \<open>\<^verbatim>\<open>LED(pin)\<close>: the constructor sets the pin up and drives it low.\<close>

definition LED_init :: "nat \<Rightarrow> LED \<times> effect list" where
  "LED_init p = (\<lparr>pin = p, is_on = False\<rparr>, [GPIO_setup p OUT, GPIO_output p 0])"

definition LED_on :: "LED \<Rightarrow> LED \<times> effect list" where
  "LED_on l = (if \<not> is_on l then (l\<lparr>is_on := True\<rparr>, [GPIO_output (pin l) 1]) else (l, []))"

definition LED_off :: "LED \<Rightarrow> LED \<times> effect list" where
  "LED_off l = (if is_on l then (l\<lparr>is_on := False\<rparr>, [GPIO_output (pin l) 0]) else (l, []))"

text \<open>\<^verbatim>\<open>BUTTON_LED.on()\<close> and \<^verbatim>\<open>BUTTON_LED.off()\<close>: an attribute access on \<^verbatim>\<open>None\<close> raises.\<close>

definition BUTTON_LED_call :: "(LED \<Rightarrow> LED \<times> effect list) \<Rightarrow> globals \<Rightarrow> unit outcome" where
  "BUTTON_LED_call m g =
     (case BUTTON_LED g of
        None \<Rightarrow> Raised AttributeError g
      | Some l \<Rightarrow> (case m l of (l', es) \<Rightarrow> Returned () (emit es (g\<lparr>BUTTON_LED := Some l'\<rparr>))))"

subsection \<open>Child processes\<close>

definition kill_video_feed :: "globals \<Rightarrow> unit outcome" where
  "kill_video_feed g =
     (case VIDEO_FEED_POPEN g of
        None \<Rightarrow> Raised AttributeError g
      | Some _ \<Rightarrow>
          Returned () (emit [Terminate Video_feed, Wait Video_feed]
                         (g\<lparr>VIDEO_FEED_POPEN := Some Exited\<rparr>)))"

text \<open>The argument lists of the two \<^verbatim>\<open>Popen\<close> calls of \<^verbatim>\<open>start_video_feed\<close>.\<close>

definition gphoto2_movie :: "string list" where
  "gphoto2_movie = [''gphoto2'', ''--stdout'', ''--capture-movie'']"

definition ffmpeg_fullscreen :: "string list" where
  "ffmpeg_fullscreen =
     [''ffmpeg'', ''-i'', ''pipe:'', ''-pix_fmt'', ''yuv420p'', ''-tune'', ''zerolatency'',
      ''-preset'', ''ultrafast'', ''-f'', ''sdl'', ''-window_fullscreen'', ''1'', ''Video'']"

definition start_video_feed :: "globals \<Rightarrow> globals" where
  "start_video_feed g =
     emit [Popen Video_feed gphoto2_movie, Popen Video_render ffmpeg_fullscreen]
       (g\<lparr>VIDEO_FEED_POPEN := Some Running\<rparr>)"

definition kill_photo_preview :: "globals \<Rightarrow> unit outcome" where
  "kill_photo_preview g =
     (case PHOTO_PREVIEW_POPEN g of
        None \<Rightarrow> Raised AttributeError g
      | Some _ \<Rightarrow>
          Returned () (emit [Terminate Photo_preview, Wait Photo_preview]
                         (g\<lparr>PHOTO_PREVIEW_POPEN := Some Exited\<rparr>)))"

definition start_photo_preview :: "string \<Rightarrow> globals \<Rightarrow> globals" where
  "start_photo_preview path g =
     emit [Popen Photo_preview [''feh'', ''-F'', path]] (g\<lparr>PHOTO_PREVIEW_POPEN := Some Running\<rparr>)"

definition photo_path :: "env \<Rightarrow> string" where
  "photo_path e =
     py_str (tm_mday e) @ ''-'' @ py_str (tm_hour e) @ ''_'' @ py_str (tm_min e) @ ''_''
       @ py_str (tm_sec e) @ ''.jpg''"

definition take_photo :: "env \<Rightarrow> globals \<Rightarrow> string outcome" where
  "take_photo e g =
     (let g1 = emit [Check_call [''gphoto2'', ''--capture-image-and-download'', ''--filename'',
                                 photo_path e]] g
      in if capture_ok e
         then Returned (photo_path e) (emit [Print (''took photo as '' @ photo_path e @ ''.'')] g1)
         else Raised CalledProcessError g1)"

text \<open>
  \<^verbatim>\<open>print_photo\<close> is a stub that ignores its argument. The trace records the call with its
  argument, then the line the stub prints.
\<close>

definition print_photo :: "string option \<Rightarrow> globals \<Rightarrow> globals" where
  "print_photo path g = emit [Call_print_photo path, Print ''TODO PRINT PHOTO''] g"

subsection \<open>The two entry points\<close>

definition button_event :: "globals \<Rightarrow> unit outcome" where
  "button_event g =
     (if CURRENT_STATE g = SLEEP then
        (let g = start_video_feed g;
             g = g\<lparr>STATE_START := TOTAL_TIME g\<rparr>
         in Returned () (g\<lparr>CURRENT_STATE := IDLE\<rparr>))
      else if CURRENT_STATE g = IDLE then
        (let g = g\<lparr>STATE_START := TOTAL_TIME g\<rparr>
         in Returned () (g\<lparr>CURRENT_STATE := COUNTDOWN\<rparr>))
      else if CURRENT_STATE g = PRINT_CHECK then
        and_then (kill_photo_preview g) (\<lambda>_ g.
          let g = start_video_feed g;
              g = g\<lparr>CURRENT_STATE := IDLE\<rparr>
          in Returned () (g\<lparr>STATE_START := TOTAL_TIME g\<rparr>))
      else Returned () g)"

definition init_board :: "globals \<Rightarrow> globals" where
  "init_board g =
     (let g = emit [GPIO_setboard, GPIO_setmode] g;
          (l, es) = LED_init PIN_LED_BUTTON;
          g = emit es (g\<lparr>BUTTON_LED := Some l\<rparr>);
          g = emit [GPIO_setup PIN_BUTTON IN] g;
          g = emit (map (\<lambda>pin_number. GPIO_setup pin_number OUT) (map snd PIN_SEG_DISPLAY)) g
      in emit [GPIO_add_event_detect PIN_BUTTON BOUNCETIME] g)"

definition update :: "rat \<Rightarrow> env \<Rightarrow> globals \<Rightarrow> unit outcome" where
  "update dt e g =
     (let g = g\<lparr>TOTAL_TIME := TOTAL_TIME g + dt\<rparr> in
      and_then
        (if CURRENT_STATE g = COUNTDOWN then
           (if TOTAL_TIME g - STATE_START g > COUNTDOWN_DURATION then
              and_then (kill_video_feed g) (\<lambda>_ g.
              and_then (take_photo e g) (\<lambda>p g.
                let g = g\<lparr>CURRENT_PHOTO_PATH := Some p\<rparr>;
                    g = start_photo_preview p g;
                    g = g\<lparr>STATE_START := TOTAL_TIME g\<rparr>
                in Returned () (g\<lparr>CURRENT_STATE := PRINT_CHECK\<rparr>)))
            else Returned () g)
         else if CURRENT_STATE g = PRINT_CHECK then
           (if TOTAL_TIME g - STATE_START g > PRINT_CHECK_DURATION then
              and_then (kill_photo_preview g) (\<lambda>_ g.
                let g = print_photo (CURRENT_PHOTO_PATH g) g;
                    g = start_video_feed g;
                    g = g\<lparr>STATE_START := TOTAL_TIME g\<rparr>
                in Returned () (g\<lparr>CURRENT_STATE := IDLE\<rparr>))
            else Returned () g)
         else if CURRENT_STATE g = IDLE then
           (if TOTAL_TIME g - STATE_START g > TIME_BEFORE_SLEEP then
              and_then (kill_video_feed g) (\<lambda>_ g.
                let g = g\<lparr>STATE_START := TOTAL_TIME g\<rparr>
                in Returned () (g\<lparr>CURRENT_STATE := SLEEP\<rparr>))
            else (case VIDEO_FEED_POPEN g of
                    None \<Rightarrow> Raised AttributeError g
                  | Some p \<Rightarrow>
                      if p \<noteq> Running then Raised (RuntimeError ''Videofeed died unexpectedly.'') g
                      else Returned () g))
         else Returned () g)
        (\<lambda>_ g.
           if CURRENT_STATE g \<in> {SLEEP} then
             (if py_mod (TOTAL_TIME g) BLINK_PERIOD > BLINK_PERIOD / 2
              then BUTTON_LED_call LED_on g
              else BUTTON_LED_call LED_off g)
           else if CURRENT_STATE g \<in> {IDLE, PRINT_CHECK} then BUTTON_LED_call LED_on g
           else BUTTON_LED_call LED_off g))"

subsection \<open>Runs of the program\<close>

text \<open>
  What can happen once \<^verbatim>\<open>main\<close> has called \<^verbatim>\<open>init_board\<close>: the loop calls \<^verbatim>\<open>update\<close>, the
  button callback fires, or one of the two child processes kept in a global exits by itself.
\<close>

datatype event = Tick rat env | Press | Feed_exits | Preview_exits

definition exits :: "process option \<Rightarrow> process option" where
  "exits h = (case h of None \<Rightarrow> None | Some _ \<Rightarrow> Some Exited)"

fun step :: "event \<Rightarrow> globals \<Rightarrow> unit outcome" where
  "step (Tick dt e) g = update dt e g"
| "step Press g = button_event g"
| "step Feed_exits g = Returned () (g\<lparr>VIDEO_FEED_POPEN := exits (VIDEO_FEED_POPEN g)\<rparr>)"
| "step Preview_exits g = Returned () (g\<lparr>PHOTO_PREVIEW_POPEN := exits (PHOTO_PREVIEW_POPEN g)\<rparr>)"

text \<open>An exception leaves \<^verbatim>\<open>main\<close>: the run ends at the first call that raises.\<close>

fun run :: "event list \<Rightarrow> globals \<Rightarrow> unit outcome" where
  "run [] g = Returned () g"
| "run (ev # evs) g =
     (case step ev g of Returned _ g' \<Rightarrow> run evs g' | Raised err g' \<Rightarrow> Raised err g')"

inductive reachable :: "globals \<Rightarrow> bool" where
  reachable_start: "reachable (init_board module_globals)"
| reachable_step: "reachable g \<Longrightarrow> step ev g = Returned () g' \<Longrightarrow> reachable g'"

subsection \<open>What the trace says about the children and the lamp\<close>

text \<open>
  Whether child \<open>c\<close> has been spawned and not terminated by the program since, after one more
  effect.
\<close>

fun spawned :: "child \<Rightarrow> bool \<Rightarrow> effect \<Rightarrow> bool" where
  "spawned c b (Popen c' _) = (if c' = c then True else b)"
| "spawned c b (Terminate c') = (if c' = c then False else b)"
| "spawned c b _ = b"

definition spawned_after :: "child \<Rightarrow> effect list \<Rightarrow> bool" where
  "spawned_after c tr = foldl (spawned c) False tr"

text \<open>
  At no point of the trace, from a start with the feed at \<open>f\<close> and the preview at \<open>p\<close>, are
  the feed and the preview both spawned and not yet terminated.
\<close>

fun never_both :: "bool \<Rightarrow> bool \<Rightarrow> effect list \<Rightarrow> bool" where
  "never_both f p [] = (\<not> (f \<and> p))"
| "never_both f p (x # xs) =
     (\<not> (f \<and> p) \<and> never_both (spawned Video_feed f x) (spawned Photo_preview p x) xs)"

text \<open>The level of pin \<open>p\<close> after one more effect, and the level of the lamp's pin after a trace.\<close>

fun lamp :: "nat \<Rightarrow> bool \<Rightarrow> effect \<Rightarrow> bool" where
  "lamp p b (GPIO_output q v) = (if q = p then v \<noteq> 0 else b)"
| "lamp p b _ = b"

definition lamp_after :: "effect list \<Rightarrow> bool" where
  "lamp_after tr = foldl (lamp PIN_LED_BUTTON) False tr"

fun is_lamp_write :: "effect \<Rightarrow> bool" where
  "is_lamp_write (GPIO_output q v) = (q = PIN_LED_BUTTON)"
| "is_lamp_write _ = False"

definition feed_running :: "globals \<Rightarrow> bool" where
  "feed_running g = (VIDEO_FEED_POPEN g = Some Running)"

definition preview_running :: "globals \<Rightarrow> bool" where
  "preview_running g = (PHOTO_PREVIEW_POPEN g = Some Running)"

definition lamp_lit :: "globals \<Rightarrow> bool" where
  "lamp_lit g = (case BUTTON_LED g of None \<Rightarrow> False | Some l \<Rightarrow> is_on l)"

subsection \<open>Invariants\<close>

definition exclusive :: "globals \<Rightarrow> bool" where
  "exclusive g =
     (never_both False False (trace g)
      \<and> (CURRENT_STATE g = PRINT_CHECK \<longrightarrow> \<not> spawned_after Video_feed (trace g))
      \<and> (CURRENT_STATE g \<noteq> PRINT_CHECK \<longrightarrow> \<not> spawned_after Photo_preview (trace g))
      \<and> (feed_running g \<longrightarrow> spawned_after Video_feed (trace g))
      \<and> (preview_running g \<longrightarrow> spawned_after Photo_preview (trace g)))"

definition handles_set :: "globals \<Rightarrow> bool" where
  "handles_set g =
     (BUTTON_LED g \<noteq> None
      \<and> (CURRENT_STATE g \<in> {IDLE, COUNTDOWN} \<longrightarrow> VIDEO_FEED_POPEN g \<noteq> None)
      \<and> (CURRENT_STATE g = PRINT_CHECK \<longrightarrow>
            PHOTO_PREVIEW_POPEN g \<noteq> None \<and> CURRENT_PHOTO_PATH g \<noteq> None \<and> lamp_lit g))"

definition lamp_synced :: "globals \<Rightarrow> bool" where
  "lamp_synced g =
     (case BUTTON_LED g of None \<Rightarrow> True
      | Some l \<Rightarrow> pin l = PIN_LED_BUTTON \<and> is_on l = lamp_after (trace g))"

subsection \<open>Event sequences\<close>

text \<open>
  With the state entered at \<open>s\<close> and the clock at \<open>t\<close>, no tick of the sequence brings the
  time spent in the state above \<^const>\<open>COUNTDOWN_DURATION\<close>.
\<close>

fun countdown_pending :: "rat \<Rightarrow> rat \<Rightarrow> event list \<Rightarrow> bool" where
  "countdown_pending s t [] = True"
| "countdown_pending s t (Tick dt e # evs) =
     (\<not> (t + dt - s > COUNTDOWN_DURATION) \<and> countdown_pending s (t + dt) evs)"
| "countdown_pending s t (Press # evs) = countdown_pending s t evs"
| "countdown_pending s t (Feed_exits # evs) = countdown_pending s t evs"
| "countdown_pending s t (Preview_exits # evs) = countdown_pending s t evs"

text \<open>The time the ticks of a sequence add to the clock.\<close>

fun ticked :: "event list \<Rightarrow> rat" where
  "ticked [] = 0"
| "ticked (Tick dt e # evs) = dt + ticked evs"
| "ticked (Press # evs) = ticked evs"
| "ticked (Feed_exits # evs) = ticked evs"
| "ticked (Preview_exits # evs) = ticked evs"

text \<open>Every tick of the sequence has a time step that is not negative.\<close>

fun nonneg_ticks :: "event list \<Rightarrow> bool" where
  "nonneg_ticks [] = True"
| "nonneg_ticks (Tick dt e # evs) = (0 \<le> dt \<and> nonneg_ticks evs)"
| "nonneg_ticks (Press # evs) = nonneg_ticks evs"
| "nonneg_ticks (Feed_exits # evs) = nonneg_ticks evs"
| "nonneg_ticks (Preview_exits # evs) = nonneg_ticks evs"

subsection \<open>The tick as the specification words it\<close>

text \<open>
  The specification describes a tick as three steps in a fixed order: add the time step to
  the clock, evaluate the row of the transition table for the current state with the time
  spent in the state, then set the lamp by the policy of the state. The definitions below
  follow that wording and say what each step makes observable: the state the row leads to
  and the effects the row has, given the time spent in the state; the level the policy asks
  for, given a state and the clock; and the write the indicator makes, which happens only
  when the level asked for differs from the cached one.
\<close>

definition spec_next_state :: "States \<Rightarrow> rat \<Rightarrow> States" where
  "spec_next_state s elapsed =
     (case s of
        SLEEP \<Rightarrow> SLEEP
      | IDLE \<Rightarrow> if elapsed > TIME_BEFORE_SLEEP then SLEEP else IDLE
      | COUNTDOWN \<Rightarrow> if elapsed > COUNTDOWN_DURATION then PRINT_CHECK else COUNTDOWN
      | PRINT_CHECK \<Rightarrow> if elapsed > PRINT_CHECK_DURATION then IDLE else PRINT_CHECK)"

definition spec_row_effects :: "States \<Rightarrow> rat \<Rightarrow> env \<Rightarrow> string option \<Rightarrow> effect list" where
  "spec_row_effects s elapsed e photo =
     (case s of
        SLEEP \<Rightarrow> []
      | IDLE \<Rightarrow>
          if elapsed > TIME_BEFORE_SLEEP then [Terminate Video_feed, Wait Video_feed] else []
      | COUNTDOWN \<Rightarrow>
          if elapsed > COUNTDOWN_DURATION
          then [Terminate Video_feed, Wait Video_feed,
                Check_call [''gphoto2'', ''--capture-image-and-download'', ''--filename'',
                            photo_path e],
                Print (''took photo as '' @ photo_path e @ ''.''),
                Popen Photo_preview [''feh'', ''-F'', photo_path e]]
          else []
      | PRINT_CHECK \<Rightarrow>
          if elapsed > PRINT_CHECK_DURATION
          then [Terminate Photo_preview, Wait Photo_preview,
                Call_print_photo photo, Print ''TODO PRINT PHOTO'',
                Popen Video_feed gphoto2_movie, Popen Video_render ffmpeg_fullscreen]
          else [])"

definition spec_policy :: "States \<Rightarrow> rat \<Rightarrow> bool" where
  "spec_policy s t =
     (case s of
        SLEEP \<Rightarrow> py_mod t BLINK_PERIOD > BLINK_PERIOD / 2
      | IDLE \<Rightarrow> True
      | PRINT_CHECK \<Rightarrow> True
      | COUNTDOWN \<Rightarrow> False)"

definition spec_lamp_write :: "bool \<Rightarrow> bool \<Rightarrow> effect list" where
  "spec_lamp_write cached wanted =
     (if wanted = cached then [] else [GPIO_output PIN_LED_BUTTON (if wanted then 1 else 0)])"

subsection \<open>Inputs used as examples\<close>

definition noon :: env where
  "noon = \<lparr>tm_mday = 4, tm_hour = 12, tm_min = 5, tm_sec = 9, capture_ok = True\<rparr>"

definition booted :: globals where
  "booted = init_board module_globals"

text \<open>After one press: idle, with the feed running; and the same once the feed has died.\<close>

definition in_idle :: globals where
  "in_idle = state_of (run [Press] booted)"

definition in_idle_feed_dead :: globals where
  "in_idle_feed_dead = state_of (run [Press, Feed_exits] booted)"

text \<open>After two presses: the countdown; nine seconds later the photo is shown.\<close>

definition in_countdown :: globals where
  "in_countdown = state_of (run [Press, Press] booted)"

definition in_print_check :: globals where
  "in_print_check = state_of (run [Press, Press, Tick 9 noon] booted)"

text \<open>The print cancelled by a press.\<close>

definition print_cancelled :: globals where
  "print_cancelled = state_of (run [Press, Press, Tick 9 noon, Press] booted)"

text \<open>The tick that takes the photo, and a first tick while idle.\<close>

definition photo_taken :: globals where
  "photo_taken = state_of (update 9 noon in_countdown)"

definition idle_ticked :: globals where
  "idle_ticked = state_of (update 1 noon in_idle)"

section \<open>Properties\<close>

subsection \<open>The invariants hold in every reachable state\<close>

lemmas op_defs = emit_def kill_video_feed_def start_video_feed_def kill_photo_preview_def
  start_photo_preview_def take_photo_def print_photo_def BUTTON_LED_call_def LED_on_def LED_off_def

lemmas const_defs = BLINK_PERIOD_def COUNTDOWN_DURATION_def PRINT_CHECK_DURATION_def
  TIME_BEFORE_SLEEP_def PIN_LED_BUTTON_def PIN_BUTTON_def BOUNCETIME_def PIN_SEG_DISPLAY_def

lemmas run_defs = booted_def init_board_def module_globals_def LED_init_def update_def
  button_event_def op_defs exits_def py_mod_def const_defs noon_def Let_def

lemma never_both_append:
  "never_both f p (xs @ ys) =
     (never_both f p xs
      \<and> never_both (foldl (spawned Video_feed) f xs) (foldl (spawned Photo_preview) p xs) ys)"
  by (induction xs arbitrary: f p) (auto, (cases ys; simp)+)

lemma exclusive_step: "exclusive g \<Longrightarrow> exclusive (state_of (step ev g))"
proof (cases ev)
  case (Tick dt e)
  assume "exclusive g"
  then show ?thesis unfolding Tick
    by (cases "CURRENT_STATE g")
       (auto simp: exclusive_def update_def op_defs Let_def spawned_after_def never_both_append
          feed_running_def preview_running_def
          split: option.splits)
next
  case Press
  assume "exclusive g"
  then show ?thesis unfolding Press
    by (cases "CURRENT_STATE g")
       (auto simp: exclusive_def button_event_def op_defs Let_def spawned_after_def never_both_append
          feed_running_def preview_running_def
          split: option.splits)
next
  case Feed_exits
  assume "exclusive g"
  then show ?thesis unfolding Feed_exits
    by (auto simp: exclusive_def exits_def feed_running_def preview_running_def split: option.splits)
next
  case Preview_exits
  assume "exclusive g"
  then show ?thesis unfolding Preview_exits
    by (auto simp: exclusive_def exits_def feed_running_def preview_running_def split: option.splits)
qed

lemma handles_set_step: "handles_set g \<Longrightarrow> step ev g = Returned () g' \<Longrightarrow> handles_set g'"
proof (cases ev)
  case (Tick dt e)
  assume "handles_set g" "step ev g = Returned () g'"
  then show ?thesis unfolding Tick
    by (cases "CURRENT_STATE g")
       (auto simp: handles_set_def lamp_lit_def update_def op_defs Let_def
          split: option.splits if_splits)
next
  case Press
  assume "handles_set g" "step ev g = Returned () g'"
  then show ?thesis unfolding Press
    by (cases "CURRENT_STATE g")
       (auto simp: handles_set_def lamp_lit_def button_event_def op_defs Let_def
          split: option.splits if_splits)
next
  case Feed_exits
  assume "handles_set g" "step ev g = Returned () g'"
  then show ?thesis unfolding Feed_exits
    by (auto simp: handles_set_def lamp_lit_def exits_def split: option.splits)
next
  case Preview_exits
  assume "handles_set g" "step ev g = Returned () g'"
  then show ?thesis unfolding Preview_exits
    by (auto simp: handles_set_def lamp_lit_def exits_def split: option.splits)
qed

lemma lamp_synced_step: "lamp_synced g \<Longrightarrow> lamp_synced (state_of (step ev g))"
proof (cases ev)
  case (Tick dt e)
  assume "lamp_synced g"
  then show ?thesis unfolding Tick
    by (cases "CURRENT_STATE g")
       (auto simp: lamp_synced_def lamp_after_def update_def op_defs Let_def
          split: option.splits)
next
  case Press
  assume "lamp_synced g"
  then show ?thesis unfolding Press
    by (cases "CURRENT_STATE g")
       (auto simp: lamp_synced_def lamp_after_def button_event_def op_defs Let_def
          split: option.splits)
next
  case Feed_exits
  assume "lamp_synced g"
  then show ?thesis unfolding Feed_exits
    by (auto simp: lamp_synced_def split: option.splits)
next
  case Preview_exits
  assume "lamp_synced g"
  then show ?thesis unfolding Preview_exits
    by (auto simp: lamp_synced_def split: option.splits)
qed

lemma boot_invariants:
  "exclusive (init_board module_globals)" "handles_set (init_board module_globals)"
  "lamp_synced (init_board module_globals)"
  by (simp_all add: exclusive_def handles_set_def lamp_synced_def lamp_after_def spawned_after_def
        feed_running_def preview_running_def
        init_board_def module_globals_def emit_def LED_init_def PIN_SEG_DISPLAY_def
        PIN_LED_BUTTON_def)

lemma reachable_invariants:
  "reachable g \<Longrightarrow> exclusive g \<and> handles_set g \<and> lamp_synced g"
proof (induction rule: reachable.induct)
  case reachable_start
  show ?case by (simp add: boot_invariants)
next
  case (reachable_step g ev g')
  from reachable_step.IH have "exclusive (state_of (step ev g))" "lamp_synced (state_of (step ev g))"
    by (simp_all add: exclusive_step lamp_synced_step)
  moreover from reachable_step.IH reachable_step.hyps(2) have "handles_set g'"
    by (blast intro: handles_set_step)
  ultimately show ?case using reachable_step.hyps(2) by simp
qed

lemma reachable_run: "reachable g \<Longrightarrow> run evs g = Returned () g' \<Longrightarrow> reachable g'"
proof (induction evs arbitrary: g)
  case Nil
  then show ?case by simp
next
  case (Cons ev evs)
  then show ?case
    by (cases "step ev g") (auto intro: reachable.reachable_step)
qed

lemma reachable_booted: "reachable booted"
  unfolding booted_def by (rule reachable.reachable_start)

lemma reachable_run_state:
  "reachable g \<Longrightarrow> raised (run evs g) = None \<Longrightarrow> reachable (state_of (run evs g))"
  by (cases "run evs g") (auto intro: reachable_run)

subsection \<open>The example states\<close>

lemma photo_path_noon: "photo_path noon = ''4-12_5_9.jpg''"
  by (simp add: photo_path_def noon_def py_str.simps digit_char_def)

lemma booted_fields:
  "BUTTON_LED booted = Some \<lparr>pin = PIN_LED_BUTTON, is_on = False\<rparr>"
  "CURRENT_STATE booted = SLEEP" "TOTAL_TIME booted = 0" "STATE_START booted = 0"
  "CURRENT_PHOTO_PATH booted = None" "VIDEO_FEED_POPEN booted = None"
  "PHOTO_PREVIEW_POPEN booted = None"
  by (simp_all add: booted_def init_board_def module_globals_def LED_init_def emit_def)

lemma in_idle_reachable: "reachable in_idle"
  unfolding in_idle_def
  by (rule reachable_run_state [OF reachable_booted]) (simp add: run_defs)

lemma in_idle_fields:
  "BUTTON_LED in_idle = Some \<lparr>pin = PIN_LED_BUTTON, is_on = False\<rparr>"
  "CURRENT_STATE in_idle = IDLE" "TOTAL_TIME in_idle = 0" "STATE_START in_idle = 0"
  "CURRENT_PHOTO_PATH in_idle = None" "VIDEO_FEED_POPEN in_idle = Some Running"
  "PHOTO_PREVIEW_POPEN in_idle = None"
  by (simp_all add: in_idle_def run_defs)

lemma in_idle_feed_dead_reachable: "reachable in_idle_feed_dead"
  unfolding in_idle_feed_dead_def
  by (rule reachable_run_state [OF reachable_booted]) (simp add: run_defs)

lemma in_idle_feed_dead_fields:
  "BUTTON_LED in_idle_feed_dead = Some \<lparr>pin = PIN_LED_BUTTON, is_on = False\<rparr>"
  "CURRENT_STATE in_idle_feed_dead = IDLE" "TOTAL_TIME in_idle_feed_dead = 0"
  "STATE_START in_idle_feed_dead = 0" "CURRENT_PHOTO_PATH in_idle_feed_dead = None"
  "VIDEO_FEED_POPEN in_idle_feed_dead = Some Exited"
  "PHOTO_PREVIEW_POPEN in_idle_feed_dead = None"
  by (simp_all add: in_idle_feed_dead_def run_defs)

lemma in_countdown_reachable: "reachable in_countdown"
  unfolding in_countdown_def
  by (rule reachable_run_state [OF reachable_booted]) (simp add: run_defs)

lemma in_countdown_fields:
  "BUTTON_LED in_countdown = Some \<lparr>pin = PIN_LED_BUTTON, is_on = False\<rparr>"
  "CURRENT_STATE in_countdown = COUNTDOWN" "TOTAL_TIME in_countdown = 0"
  "STATE_START in_countdown = 0" "CURRENT_PHOTO_PATH in_countdown = None"
  "VIDEO_FEED_POPEN in_countdown = Some Running" "PHOTO_PREVIEW_POPEN in_countdown = None"
  by (simp_all add: in_countdown_def run_defs)

lemma in_print_check_reachable: "reachable in_print_check"
  unfolding in_print_check_def
  by (rule reachable_run_state [OF reachable_booted]) (simp add: run_defs)

lemma in_print_check_fields:
  "BUTTON_LED in_print_check = Some \<lparr>pin = PIN_LED_BUTTON, is_on = True\<rparr>"
  "CURRENT_STATE in_print_check = PRINT_CHECK" "TOTAL_TIME in_print_check = 9"
  "STATE_START in_print_check = 9" "CURRENT_PHOTO_PATH in_print_check = Some ''4-12_5_9.jpg''"
  "VIDEO_FEED_POPEN in_print_check = Some Exited"
  "PHOTO_PREVIEW_POPEN in_print_check = Some Running"
  by (simp_all add: in_print_check_def run_defs photo_path_noon [unfolded noon_def])

lemma print_cancelled_reachable: "reachable print_cancelled"
  unfolding print_cancelled_def
  by (rule reachable_run_state [OF reachable_booted]) (simp add: run_defs)

lemma print_cancelled_fields:
  "BUTTON_LED print_cancelled = Some \<lparr>pin = PIN_LED_BUTTON, is_on = True\<rparr>"
  "CURRENT_STATE print_cancelled = IDLE" "TOTAL_TIME print_cancelled = 9"
  "STATE_START print_cancelled = 9" "CURRENT_PHOTO_PATH print_cancelled = Some ''4-12_5_9.jpg''"
  "VIDEO_FEED_POPEN print_cancelled = Some Running"
  "PHOTO_PREVIEW_POPEN print_cancelled = Some Exited"
  by (simp_all add: print_cancelled_def run_defs photo_path_noon [unfolded noon_def])

subsection \<open>The video feed and the photo preview\<close>

lemma never_both_end:
  "never_both f p tr \<Longrightarrow> \<not> (foldl (spawned Video_feed) f tr \<and> foldl (spawned Photo_preview) p tr)"
  by (induction tr arbitrary: f p) auto

lemma exclusive_running:
  "exclusive g \<Longrightarrow> \<not> (feed_running g \<and> preview_running g) \<and> never_both False False (trace g)"
  using never_both_end [of False False "trace g"]
  by (auto simp: exclusive_def spawned_after_def)

text \<open>
  Claim C2. In every reachable state the video feed and the photo preview are not both
  running. The trace says how: at no point of it are the two both spawned and not yet
  terminated, so a transition that spawns one has terminated the other before. The same
  holds in the state any further event leads to, whether the call returns or raises.
\<close>

theorem feed_and_preview_exclusive:
  assumes "reachable g"
  shows "\<not> (feed_running g \<and> preview_running g)
         \<and> never_both False False (trace g)
         \<and> \<not> (feed_running (state_of (step ev g)) \<and> preview_running (state_of (step ev g)))
         \<and> never_both False False (trace (state_of (step ev g)))"
proof -
  from assms have ex: "exclusive g"
    by (simp add: reachable_invariants)
  then have "exclusive (state_of (step ev g))"
    by (rule exclusive_step)
  with ex show ?thesis
    using exclusive_running [of g] exclusive_running [of "state_of (step ev g)"] by blast
qed

theorem feed_and_preview_exclusive_witness:
  "reachable in_print_check
   \<and> preview_running in_print_check
   \<and> \<not> feed_running in_print_check
   \<and> feed_running (state_of (step Press in_print_check))
   \<and> \<not> preview_running (state_of (step Press in_print_check))
   \<and> never_both False False (trace (state_of (step Press in_print_check)))"
proof -
  have "preview_running in_print_check"
    by (simp add: preview_running_def in_print_check_fields)
  moreover have "feed_running (state_of (step Press in_print_check))"
    by (simp add: feed_running_def button_event_def op_defs Let_def in_print_check_fields)
  ultimately show ?thesis
    using feed_and_preview_exclusive [OF in_print_check_reachable, of Press]
    by (simp add: in_print_check_reachable)
qed

subsection \<open>Ticks while idle\<close>

text \<open>
  Claim C3. A tick in the idle state raises exactly when the feed process has exited and
  the sleep timeout does not fire in that tick; the exception is then the \<^verbatim>\<open>RuntimeError\<close>
  of the source. When the timeout fires, the branch that polls the feed is not reached.
\<close>

theorem idle_tick_raises_iff_feed_dead:
  assumes "reachable g" and "CURRENT_STATE g = IDLE"
  shows "raised (update dt e g) =
           (if VIDEO_FEED_POPEN g = Some Exited
               \<and> \<not> (TOTAL_TIME g + dt - STATE_START g > TIME_BEFORE_SLEEP)
            then Some (RuntimeError ''Videofeed died unexpectedly.'')
            else None)"
proof -
  from assms(1) have "handles_set g"
    by (simp add: reachable_invariants)
  with assms(2) obtain l p where "BUTTON_LED g = Some l" "VIDEO_FEED_POPEN g = Some p"
    by (auto simp: handles_set_def)
  with assms(2) show ?thesis
    by (cases p) (simp_all add: update_def op_defs Let_def)
qed

theorem idle_tick_raises_iff_feed_dead_witness:
  "reachable in_idle_feed_dead
   \<and> CURRENT_STATE in_idle_feed_dead = IDLE
   \<and> raised (update 1 noon in_idle_feed_dead) = Some (RuntimeError ''Videofeed died unexpectedly.'')
   \<and> raised (update 31 noon in_idle_feed_dead) = None
   \<and> raised (update 1 noon in_idle) = None"
  using idle_tick_raises_iff_feed_dead [OF in_idle_feed_dead_reachable, of 1 noon]
    idle_tick_raises_iff_feed_dead [OF in_idle_feed_dead_reachable, of 31 noon]
    idle_tick_raises_iff_feed_dead [OF in_idle_reachable, of 1 noon]
  by (simp add: in_idle_feed_dead_reachable in_idle_feed_dead_fields in_idle_fields
        TIME_BEFORE_SLEEP_def)

text \<open>
  Claim C6. A tick in the idle state with more than \<^const>\<open>TIME_BEFORE_SLEEP\<close> spent in the
  state returns in the sleep state, having terminated the feed and waited for it (the only
  other effects are writes to the lamp). A tick with less than that spent leaves the state
  idle and its start unchanged, whether the call returns or raises.
\<close>

theorem idle_timeout:
  assumes "reachable g" and "CURRENT_STATE g = IDLE"
  shows "(TOTAL_TIME g + dt - STATE_START g > TIME_BEFORE_SLEEP \<longrightarrow>
            (\<exists>g' es. update dt e g = Returned () g'
               \<and> CURRENT_STATE g' = SLEEP
               \<and> \<not> feed_running g'
               \<and> STATE_START g' = TOTAL_TIME g + dt
               \<and> trace g' = trace g @ [Terminate Video_feed, Wait Video_feed] @ es
               \<and> list_all is_lamp_write es))
         \<and> (TOTAL_TIME g + dt - STATE_START g < TIME_BEFORE_SLEEP \<longrightarrow>
              CURRENT_STATE (state_of (update dt e g)) = IDLE
              \<and> STATE_START (state_of (update dt e g)) = STATE_START g)"
proof -
  from assms(1) have "handles_set g" "lamp_synced g"
    by (simp_all add: reachable_invariants)
  with assms(2) obtain l p where "BUTTON_LED g = Some l" "VIDEO_FEED_POPEN g = Some p"
     "pin l = PIN_LED_BUTTON"
    by (auto simp: handles_set_def lamp_synced_def)
  with assms(2) show ?thesis
    by (cases p) (simp_all add: update_def op_defs Let_def feed_running_def)
qed

theorem idle_timeout_witness:
  "reachable in_idle \<and> CURRENT_STATE in_idle = IDLE
   \<and> CURRENT_STATE (state_of (update 31 noon in_idle)) = SLEEP
   \<and> \<not> feed_running (state_of (update 31 noon in_idle))
   \<and> CURRENT_STATE (state_of (update 29 noon in_idle)) = IDLE"
  using idle_timeout [OF in_idle_reachable, of 31 noon] idle_timeout [OF in_idle_reachable, of 29 noon]
  by (auto simp: in_idle_reachable in_idle_fields TIME_BEFORE_SLEEP_def)

subsection \<open>Ticks while asleep\<close>

text \<open>
  Claim C10. A tick in the sleep state leaves the state, its start, the photo path and the two
  process handles as they were; the clock advances by the time step and the only effects
  are writes to the lamp. No event but a press leaves the sleep state, and a press does.
\<close>

theorem sleep_tick_frame:
  assumes "reachable g" and "CURRENT_STATE g = SLEEP"
  shows "CURRENT_STATE (state_of (update dt e g)) = SLEEP
         \<and> STATE_START (state_of (update dt e g)) = STATE_START g
         \<and> CURRENT_PHOTO_PATH (state_of (update dt e g)) = CURRENT_PHOTO_PATH g
         \<and> VIDEO_FEED_POPEN (state_of (update dt e g)) = VIDEO_FEED_POPEN g
         \<and> PHOTO_PREVIEW_POPEN (state_of (update dt e g)) = PHOTO_PREVIEW_POPEN g
         \<and> TOTAL_TIME (state_of (update dt e g)) = TOTAL_TIME g + dt
         \<and> (\<exists>es. trace (state_of (update dt e g)) = trace g @ es \<and> list_all is_lamp_write es)
         \<and> (CURRENT_STATE (state_of (step ev g)) \<noteq> SLEEP \<longrightarrow> ev = Press)
         \<and> (\<exists>g'. button_event g = Returned () g' \<and> CURRENT_STATE g' = IDLE)"
proof -
  have fr: "CURRENT_STATE (state_of (update dt e g)) = SLEEP
         \<and> STATE_START (state_of (update dt e g)) = STATE_START g
         \<and> CURRENT_PHOTO_PATH (state_of (update dt e g)) = CURRENT_PHOTO_PATH g
         \<and> VIDEO_FEED_POPEN (state_of (update dt e g)) = VIDEO_FEED_POPEN g
         \<and> PHOTO_PREVIEW_POPEN (state_of (update dt e g)) = PHOTO_PREVIEW_POPEN g
         \<and> TOTAL_TIME (state_of (update dt e g)) = TOTAL_TIME g + dt"
    using assms(2) by (cases "BUTTON_LED g") (simp_all add: update_def op_defs Let_def)
  have tr: "\<exists>es. trace (state_of (update dt e g)) = trace g @ es \<and> list_all is_lamp_write es"
  proof (cases "BUTTON_LED g")
    case None
    with assms(2) show ?thesis
      by (simp add: update_def op_defs Let_def)
  next
    case (Some l)
    moreover from assms(1) have "lamp_synced g"
      by (simp add: reachable_invariants)
    ultimately show ?thesis
      using assms(2) by (simp add: update_def op_defs Let_def lamp_synced_def)
  qed
  have "CURRENT_STATE (state_of (update dt' e' g)) = SLEEP" for dt' e'
    using assms(2) by (cases "BUTTON_LED g") (simp_all add: update_def op_defs Let_def)
  then have "CURRENT_STATE (state_of (step ev g)) \<noteq> SLEEP \<longrightarrow> ev = Press"
    using assms(2) by (cases ev) simp_all
  moreover have "\<exists>g'. button_event g = Returned () g' \<and> CURRENT_STATE g' = IDLE"
    using assms(2) by (simp add: button_event_def Let_def)
  ultimately show ?thesis using fr tr by blast
qed

theorem sleep_tick_frame_witness:
  "CURRENT_STATE booted = SLEEP
   \<and> CURRENT_STATE (state_of (update 40 noon booted)) = SLEEP
   \<and> STATE_START (state_of (update 40 noon booted)) = 0
   \<and> CURRENT_PHOTO_PATH (state_of (update 40 noon booted)) = None
   \<and> CURRENT_STATE (state_of (step Press booted)) = IDLE"
  using sleep_tick_frame [OF reachable_booted, of 40 noon Press]
  by (auto simp: booted_fields)

subsection \<open>The lamp\<close>

lemma py_mod_one: "py_mod t 1 = frac t"
  by (simp add: py_mod_def frac_def)

text \<open>
  Claim C7. After every tick that returns, the cached level of the LED and the level last
  written to its pin are the ones of the policy for the state the tick ends in: asleep, lit
  exactly when the clock modulo \<^const>\<open>BLINK_PERIOD\<close> exceeds half of it, that is when the
  fractional part of the clock exceeds one half, whatever the time the state was entered
  at; idle or showing the photo, lit; counting down, dark.
\<close>

theorem lamp_follows_policy:
  assumes "reachable g" and "update dt e g = Returned () g'"
  shows "\<exists>l. BUTTON_LED g' = Some l
           \<and> lamp_after (trace g') = is_on l
           \<and> is_on l =
               (case CURRENT_STATE g' of
                  SLEEP \<Rightarrow> py_mod (TOTAL_TIME g') BLINK_PERIOD > BLINK_PERIOD / 2
                | IDLE \<Rightarrow> True
                | PRINT_CHECK \<Rightarrow> True
                | COUNTDOWN \<Rightarrow> False)
           \<and> (CURRENT_STATE g' = SLEEP \<longrightarrow> is_on l = (frac (TOTAL_TIME g') > 1 / 2))"
proof -
  from assms(1) have "lamp_synced g"
    by (simp add: reachable_invariants)
  then have "lamp_synced (state_of (step (Tick dt e) g))"
    by (rule lamp_synced_step)
  with assms(2) have sync: "lamp_synced g'"
    by simp
  from assms(2) obtain l where l: "BUTTON_LED g' = Some l"
    and pol: "is_on l =
               (case CURRENT_STATE g' of
                  SLEEP \<Rightarrow> py_mod (TOTAL_TIME g') BLINK_PERIOD > BLINK_PERIOD / 2
                | IDLE \<Rightarrow> True
                | PRINT_CHECK \<Rightarrow> True
                | COUNTDOWN \<Rightarrow> False)"
    by (cases "CURRENT_STATE g")
       (auto simp: update_def op_defs Let_def split: option.splits if_splits process.splits)
  from pol have "CURRENT_STATE g' = SLEEP \<longrightarrow> is_on l = (frac (TOTAL_TIME g') > 1 / 2)"
    by (simp add: BLINK_PERIOD_def py_mod_one)
  moreover from l sync have "lamp_after (trace g') = is_on l"
    by (simp add: lamp_synced_def)
  ultimately show ?thesis
    using l pol by blast
qed

theorem lamp_follows_policy_witness:
  "reachable booted
   \<and> update (3 / 4) noon booted = Returned () (state_of (update (3 / 4) noon booted))
   \<and> lamp_lit (state_of (update (3 / 4) noon booted))
   \<and> lamp_after (trace (state_of (update (3 / 4) noon booted)))"
proof -
  have ret: "update (3 / 4) noon booted = Returned () (state_of (update (3 / 4) noon booted))"
    by (simp add: update_def op_defs Let_def booted_fields)
  have st: "CURRENT_STATE (state_of (update (3 / 4) noon booted)) = SLEEP"
    "TOTAL_TIME (state_of (update (3 / 4) noon booted)) = 3 / 4"
    by (simp_all add: update_def op_defs Let_def booted_fields)
  from lamp_follows_policy [OF reachable_booted ret]
  have "lamp_lit (state_of (update (3 / 4) noon booted))
        \<and> lamp_after (trace (state_of (update (3 / 4) noon booted)))"
    by (auto simp: st lamp_lit_def BLINK_PERIOD_def py_mod_def)
  with ret show ?thesis
    by (intro conjI) (simp_all only: reachable_booted)
qed

subsection \<open>The clock\<close>

lemma step_total_time:
  "TOTAL_TIME (state_of (step ev g)) = TOTAL_TIME g + (case ev of Tick dt e \<Rightarrow> dt | _ \<Rightarrow> 0)"
proof (cases ev)
  case (Tick dt e)
  show ?thesis unfolding Tick
    by (cases "CURRENT_STATE g")
       (auto simp: update_def op_defs Let_def split: option.splits)
next
  case Press
  show ?thesis unfolding Press
    by (cases "CURRENT_STATE g")
       (auto simp: button_event_def op_defs Let_def split: option.splits)
qed simp_all

lemma run_total_time: "nonneg_ticks evs \<Longrightarrow> TOTAL_TIME g \<le> TOTAL_TIME (state_of (run evs g))"
proof (induction evs arbitrary: g)
  case Nil
  show ?case by simp
next
  case (Cons ev evs)
  from Cons.prems have nn: "nonneg_ticks evs"
    by (cases ev) simp_all
  from Cons.prems have "TOTAL_TIME g \<le> TOTAL_TIME (state_of (step ev g))"
    using step_total_time [of ev g] by (cases ev) simp_all
  then show ?case
    using Cons.IH [OF nn, of "state_of (step ev g)"]
    by (cases "step ev g") auto
qed

lemma nonneg_ticks_append: "nonneg_ticks (xs @ ys) = (nonneg_ticks xs \<and> nonneg_ticks ys)"
  by (induction xs rule: nonneg_ticks.induct) simp_all

lemma run_append:
  "run (xs @ ys) g =
     (case run xs g of Returned _ g' \<Rightarrow> run ys g' | Raised err g' \<Rightarrow> Raised err g')"
  by (induction xs arbitrary: g) (auto split: outcome.splits)

text \<open>
  Claim C9. The clock starts at zero. Along any sequence of events whose ticks have time
  steps that are not negative, the clock never decreases: its value after a prefix of the
  sequence is at most its value after the whole sequence.
\<close>

theorem total_time_monotone:
  assumes "nonneg_ticks (xs @ ys)"
  shows "TOTAL_TIME (state_of (run xs g)) \<le> TOTAL_TIME (state_of (run (xs @ ys) g))
         \<and> TOTAL_TIME module_globals = 0 \<and> TOTAL_TIME (init_board module_globals) = 0"
proof -
  from assms have "nonneg_ticks ys"
    by (simp add: nonneg_ticks_append)
  then have "TOTAL_TIME (state_of (run xs g)) \<le> TOTAL_TIME (state_of (run (xs @ ys) g))"
    by (cases "run xs g") (simp_all add: run_append run_total_time)
  then show ?thesis
    by (simp add: module_globals_def init_board_def emit_def LED_init_def)
qed

theorem total_time_monotone_witness:
  "nonneg_ticks ([Tick (1 / 2) noon, Press] @ [Tick 0 noon, Tick 2 noon])
   \<and> TOTAL_TIME (state_of (run [Tick (1 / 2) noon, Press] booted)) = 1 / 2
   \<and> TOTAL_TIME (state_of (run ([Tick (1 / 2) noon, Press] @ [Tick 0 noon, Tick 2 noon]) booted)) = 5 / 2"
proof -
  have nn: "nonneg_ticks ([Tick (1 / 2) noon, Press] @ [Tick 0 noon, Tick 2 noon])"
    by simp
  have "TOTAL_TIME (state_of (run [Tick (1 / 2) noon, Press] booted)) = 1 / 2"
    "TOTAL_TIME (state_of (run ([Tick (1 / 2) noon, Press] @ [Tick 0 noon, Tick 2 noon]) booted)) = 5 / 2"
    by (simp_all add: run_defs)
  with nn show ?thesis
    using total_time_monotone [OF nn, of booted] by blast
qed

subsection \<open>Leaving the photo check\<close>

text \<open>
  Claim C5. From a reachable state that shows the photo, a press returns in the idle state
  after terminating the preview, waiting for it, and only then spawning the feed. A tick
  with more than \<^const>\<open>PRINT_CHECK_DURATION\<close> spent in the state does the same, with one call
  of \<^verbatim>\<open>print_photo\<close> on the stored path between the two. A tick with less leaves the state
  and has no effect but on the clock, and no other event leaves the state: whichever of the
  press and the timed-out tick comes first takes the controller out.
\<close>

theorem leaving_print_check:
  assumes "reachable g" and "CURRENT_STATE g = PRINT_CHECK"
  shows "(\<exists>g'. button_event g = Returned () g'
            \<and> CURRENT_STATE g' = IDLE
            \<and> trace g' = trace g @ [Terminate Photo_preview, Wait Photo_preview,
                                    Popen Video_feed gphoto2_movie,
                                    Popen Video_render ffmpeg_fullscreen])
         \<and> (TOTAL_TIME g + dt - STATE_START g > PRINT_CHECK_DURATION \<longrightarrow>
              (\<exists>g'. update dt e g = Returned () g'
                 \<and> CURRENT_STATE g' = IDLE
                 \<and> CURRENT_PHOTO_PATH g \<noteq> None
                 \<and> trace g' = trace g @ [Terminate Photo_preview, Wait Photo_preview,
                                         Call_print_photo (CURRENT_PHOTO_PATH g),
                                         Print ''TODO PRINT PHOTO'',
                                         Popen Video_feed gphoto2_movie,
                                         Popen Video_render ffmpeg_fullscreen]))
         \<and> (\<not> TOTAL_TIME g + dt - STATE_START g > PRINT_CHECK_DURATION \<longrightarrow>
              update dt e g = Returned () (g\<lparr>TOTAL_TIME := TOTAL_TIME g + dt\<rparr>))
         \<and> (CURRENT_STATE (state_of (step ev g)) \<noteq> PRINT_CHECK \<longrightarrow>
              ev = Press
              \<or> (\<exists>dt' e'. ev = Tick dt' e'
                    \<and> TOTAL_TIME g + dt' - STATE_START g > PRINT_CHECK_DURATION))"
proof -
  from assms(1) have "handles_set g"
    by (simp add: reachable_invariants)
  with assms(2) obtain l p q where h: "BUTTON_LED g = Some l" "is_on l"
    "PHOTO_PREVIEW_POPEN g = Some p" "CURRENT_PHOTO_PATH g = Some q"
    by (auto simp: handles_set_def lamp_lit_def split: option.splits)
  have press: "\<exists>g'. button_event g = Returned () g'
            \<and> CURRENT_STATE g' = IDLE
            \<and> trace g' = trace g @ [Terminate Photo_preview, Wait Photo_preview,
                                    Popen Video_feed gphoto2_movie,
                                    Popen Video_render ffmpeg_fullscreen]"
    using assms(2) h by (simp add: button_event_def op_defs Let_def)
  have tick: "(TOTAL_TIME g + dt' - STATE_START g > PRINT_CHECK_DURATION \<longrightarrow>
              (\<exists>g'. update dt' e' g = Returned () g'
                 \<and> CURRENT_STATE g' = IDLE
                 \<and> CURRENT_PHOTO_PATH g \<noteq> None
                 \<and> trace g' = trace g @ [Terminate Photo_preview, Wait Photo_preview,
                                         Call_print_photo (CURRENT_PHOTO_PATH g),
                                         Print ''TODO PRINT PHOTO'',
                                         Popen Video_feed gphoto2_movie,
                                         Popen Video_render ffmpeg_fullscreen]))
         \<and> (\<not> TOTAL_TIME g + dt' - STATE_START g > PRINT_CHECK_DURATION \<longrightarrow>
              update dt' e' g = Returned () (g\<lparr>TOTAL_TIME := TOTAL_TIME g + dt'\<rparr>))" for dt' e'
    using assms(2) h by (simp add: update_def op_defs Let_def)
  have "CURRENT_STATE (state_of (step ev g)) \<noteq> PRINT_CHECK \<longrightarrow>
              ev = Press
              \<or> (\<exists>dt' e'. ev = Tick dt' e'
                    \<and> TOTAL_TIME g + dt' - STATE_START g > PRINT_CHECK_DURATION)"
  proof (cases ev)
    case (Tick dt' e')
    with tick [of dt' e'] assms(2) show ?thesis
      by (cases "TOTAL_TIME g + dt' - STATE_START g > PRINT_CHECK_DURATION") auto
  qed (simp_all add: assms(2))
  with press tick [of dt e] show ?thesis
    by blast
qed

theorem leaving_print_check_witness:
  "reachable in_print_check \<and> CURRENT_STATE in_print_check = PRINT_CHECK
   \<and> CURRENT_STATE (state_of (button_event in_print_check)) = IDLE
   \<and> trace (state_of (button_event in_print_check))
       = trace in_print_check @ [Terminate Photo_preview, Wait Photo_preview,
                                 Popen Video_feed gphoto2_movie,
                                 Popen Video_render ffmpeg_fullscreen]
   \<and> CURRENT_STATE (state_of (update 11 noon in_print_check)) = IDLE
   \<and> trace (state_of (update 11 noon in_print_check))
       = trace in_print_check @ [Terminate Photo_preview, Wait Photo_preview,
                                 Call_print_photo (Some ''4-12_5_9.jpg''),
                                 Print ''TODO PRINT PHOTO'',
                                 Popen Video_feed gphoto2_movie,
                                 Popen Video_render ffmpeg_fullscreen]
   \<and> CURRENT_STATE (state_of (update 1 noon in_print_check)) = PRINT_CHECK"
  using leaving_print_check [OF in_print_check_reachable, of 11 noon Press]
    leaving_print_check [OF in_print_check_reachable, of 1 noon Press]
  by (auto simp: in_print_check_reachable in_print_check_fields PRINT_CHECK_DURATION_def)

subsection \<open>The photo path\<close>

text \<open>
  Claim C1, as stated, says that the photo path is defined exactly in the state that shows
  the photo, being cleared on the way out. The code never assigns \<^verbatim>\<open>None\<close> to it: after the
  print has been cancelled by a press, and after it has timed out, the controller is idle
  and the path of the last photo is still there.
\<close>

theorem photo_path_kept_counterexample:
  "reachable print_cancelled
   \<and> \<not> (CURRENT_PHOTO_PATH print_cancelled \<noteq> None
          \<longleftrightarrow> CURRENT_STATE print_cancelled = PRINT_CHECK)
   \<and> step (Tick 11 noon) in_print_check = Returned () (state_of (update 11 noon in_print_check))
   \<and> \<not> (CURRENT_PHOTO_PATH (state_of (update 11 noon in_print_check)) \<noteq> None
          \<longleftrightarrow> CURRENT_STATE (state_of (update 11 noon in_print_check)) = PRINT_CHECK)"
  by (simp add: print_cancelled_reachable print_cancelled_fields in_print_check_fields
        update_def op_defs Let_def const_defs)

text \<open>
  Claim C1, amended. In every reachable state that shows the photo the path is defined. An
  event changes the path only on the transition from the countdown to the photo check,
  which is made by a tick and stores the path of the photo taken. Leaving the photo check
  keeps the path.
\<close>

theorem photo_path_set_at_capture:
  assumes "reachable g"
  shows "(CURRENT_STATE g = PRINT_CHECK \<longrightarrow> CURRENT_PHOTO_PATH g \<noteq> None)
         \<and> (CURRENT_PHOTO_PATH (state_of (step ev g)) \<noteq> CURRENT_PHOTO_PATH g \<longrightarrow>
              CURRENT_STATE g = COUNTDOWN \<and> CURRENT_STATE (state_of (step ev g)) = PRINT_CHECK)
         \<and> (CURRENT_STATE g = COUNTDOWN \<and> CURRENT_STATE (state_of (step ev g)) = PRINT_CHECK \<longrightarrow>
              (\<exists>dt e. ev = Tick dt e
                 \<and> CURRENT_PHOTO_PATH (state_of (step ev g)) = Some (photo_path e)))
         \<and> (CURRENT_STATE g = PRINT_CHECK \<longrightarrow>
              CURRENT_PHOTO_PATH (state_of (step ev g)) = CURRENT_PHOTO_PATH g)"
proof -
  from assms have h: "handles_set g"
    by (simp add: reachable_invariants)
  then have "CURRENT_STATE g = PRINT_CHECK \<longrightarrow> CURRENT_PHOTO_PATH g \<noteq> None"
    by (simp add: handles_set_def)
  moreover have "(CURRENT_PHOTO_PATH (state_of (step ev g)) \<noteq> CURRENT_PHOTO_PATH g \<longrightarrow>
              CURRENT_STATE g = COUNTDOWN \<and> CURRENT_STATE (state_of (step ev g)) = PRINT_CHECK)
         \<and> (CURRENT_STATE g = COUNTDOWN \<and> CURRENT_STATE (state_of (step ev g)) = PRINT_CHECK \<longrightarrow>
              (\<exists>dt e. ev = Tick dt e
                 \<and> CURRENT_PHOTO_PATH (state_of (step ev g)) = Some (photo_path e)))
         \<and> (CURRENT_STATE g = PRINT_CHECK \<longrightarrow>
              CURRENT_PHOTO_PATH (state_of (step ev g)) = CURRENT_PHOTO_PATH g)"
  proof (cases ev)
    case (Tick dt e)
    show ?thesis unfolding Tick
      by (cases "CURRENT_STATE g")
         (auto simp: update_def op_defs Let_def split: option.splits)
  next
    case Press
    show ?thesis unfolding Press
      by (cases "CURRENT_STATE g")
         (auto simp: button_event_def op_defs Let_def split: option.splits)
  qed simp_all
  ultimately show ?thesis by blast
qed

theorem photo_path_set_at_capture_witness:
  "reachable in_countdown
   \<and> CURRENT_PHOTO_PATH in_countdown = None
   \<and> CURRENT_STATE (state_of (step (Tick 9 noon) in_countdown)) = PRINT_CHECK
   \<and> CURRENT_PHOTO_PATH (state_of (step (Tick 9 noon) in_countdown)) = Some (photo_path noon)
   \<and> reachable in_print_check
   \<and> CURRENT_PHOTO_PATH in_print_check \<noteq> None
   \<and> CURRENT_PHOTO_PATH (state_of (step Press in_print_check)) = CURRENT_PHOTO_PATH in_print_check"
proof -
  have "CURRENT_STATE (state_of (step (Tick 9 noon) in_countdown)) = PRINT_CHECK"
    by (simp add: update_def op_defs Let_def in_countdown_fields const_defs noon_def)
  then show ?thesis
    using photo_path_set_at_capture [OF in_countdown_reachable, of "Tick 9 noon"]
      photo_path_set_at_capture [OF in_print_check_reachable, of Press]
    by (simp add: in_countdown_reachable in_print_check_reachable in_countdown_fields
          in_print_check_fields del: step.simps)
qed

subsection \<open>The countdown\<close>

lemma countdown_quiet_tick:
  assumes "reachable g" and "CURRENT_STATE g = COUNTDOWN"
    and "\<not> TOTAL_TIME g + dt - STATE_START g > COUNTDOWN_DURATION"
  shows "\<exists>g' es. update dt e g = Returned () g'
           \<and> CURRENT_STATE g' = COUNTDOWN \<and> STATE_START g' = STATE_START g
           \<and> TOTAL_TIME g' = TOTAL_TIME g + dt
           \<and> CURRENT_PHOTO_PATH g' = CURRENT_PHOTO_PATH g
           \<and> VIDEO_FEED_POPEN g' = VIDEO_FEED_POPEN g
           \<and> PHOTO_PREVIEW_POPEN g' = PHOTO_PREVIEW_POPEN g
           \<and> trace g' = trace g @ es \<and> list_all is_lamp_write es"
proof -
  from assms(1) have "handles_set g" "lamp_synced g"
    by (simp_all add: reachable_invariants)
  then obtain l where "BUTTON_LED g = Some l" "pin l = PIN_LED_BUTTON"
    by (auto simp: handles_set_def lamp_synced_def)
  with assms(2,3) show ?thesis
    by (simp add: update_def op_defs Let_def)
qed

lemma countdown_pending_run:
  assumes "reachable g" and "CURRENT_STATE g = COUNTDOWN"
    and "countdown_pending (STATE_START g) (TOTAL_TIME g) evs"
  shows "\<exists>g' es. run evs g = Returned () g'
           \<and> CURRENT_STATE g' = COUNTDOWN \<and> STATE_START g' = STATE_START g
           \<and> TOTAL_TIME g' = TOTAL_TIME g + ticked evs
           \<and> CURRENT_PHOTO_PATH g' = CURRENT_PHOTO_PATH g
           \<and> feed_running g' \<le> feed_running g
           \<and> preview_running g' \<le> preview_running g
           \<and> trace g' = trace g @ es \<and> list_all is_lamp_write es"
  using assms
proof (induction evs arbitrary: g)
  case Nil
  then show ?case by simp
next
  case (Cons ev evs)
  have "\<exists>g1 es1. step ev g = Returned () g1
           \<and> CURRENT_STATE g1 = COUNTDOWN \<and> STATE_START g1 = STATE_START g
           \<and> TOTAL_TIME g1 + ticked evs = TOTAL_TIME g + ticked (ev # evs)
           \<and> CURRENT_PHOTO_PATH g1 = CURRENT_PHOTO_PATH g
           \<and> feed_running g1 \<le> feed_running g
           \<and> preview_running g1 \<le> preview_running g
           \<and> trace g1 = trace g @ es1 \<and> list_all is_lamp_write es1
           \<and> countdown_pending (STATE_START g1) (TOTAL_TIME g1) evs"
  proof (cases ev)
    case (Tick dt e)
    with Cons.prems(3) have q: "\<not> TOTAL_TIME g + dt - STATE_START g > COUNTDOWN_DURATION"
      and p: "countdown_pending (STATE_START g) (TOTAL_TIME g + dt) evs"
      by simp_all
    from countdown_quiet_tick [OF Cons.prems(1,2) q, of e] p show ?thesis
      unfolding Tick by (auto simp: feed_running_def preview_running_def)
  next
    case Press
    with Cons.prems(2,3) show ?thesis
      by (simp add: button_event_def)
  next
    case Feed_exits
    with Cons.prems(2,3) show ?thesis
      by (simp add: feed_running_def preview_running_def exits_def split: option.splits)
  next
    case Preview_exits
    with Cons.prems(2,3) show ?thesis
      by (simp add: feed_running_def preview_running_def exits_def split: option.splits)
  qed
  then obtain g1 es1 where s1: "step ev g = Returned () g1"
    and k1: "CURRENT_STATE g1 = COUNTDOWN" "STATE_START g1 = STATE_START g"
      "TOTAL_TIME g1 + ticked evs = TOTAL_TIME g + ticked (ev # evs)"
      "CURRENT_PHOTO_PATH g1 = CURRENT_PHOTO_PATH g"
      "feed_running g1 \<le> feed_running g" "preview_running g1 \<le> preview_running g"
      "trace g1 = trace g @ es1" "list_all is_lamp_write es1"
    and p1: "countdown_pending (STATE_START g1) (TOTAL_TIME g1) evs"
    by blast
  from Cons.prems(1) s1 have r1: "reachable g1"
    by (rule reachable.reachable_step)
  from Cons.IH [OF r1 k1(1) p1] obtain g' es where
    "run evs g1 = Returned () g'" "CURRENT_STATE g' = COUNTDOWN" "STATE_START g' = STATE_START g1"
    "TOTAL_TIME g' = TOTAL_TIME g1 + ticked evs"
    "CURRENT_PHOTO_PATH g' = CURRENT_PHOTO_PATH g1"
    "feed_running g' \<le> feed_running g1" "preview_running g' \<le> preview_running g1"
    "trace g' = trace g1 @ es" "list_all is_lamp_write es"
    by blast
  with s1 k1 have "run (ev # evs) g = Returned () g'
           \<and> CURRENT_STATE g' = COUNTDOWN \<and> STATE_START g' = STATE_START g
           \<and> TOTAL_TIME g' = TOTAL_TIME g + ticked (ev # evs)
           \<and> CURRENT_PHOTO_PATH g' = CURRENT_PHOTO_PATH g
           \<and> feed_running g' \<le> feed_running g
           \<and> preview_running g' \<le> preview_running g
           \<and> trace g' = trace g @ (es1 @ es) \<and> list_all is_lamp_write (es1 @ es)"
    by auto
  then show ?case by blast
qed

lemma countdown_fires:
  assumes "reachable g" and "CURRENT_STATE g = COUNTDOWN"
    and "TOTAL_TIME g + dt - STATE_START g > COUNTDOWN_DURATION" and "capture_ok e"
  shows "\<exists>g' es. update dt e g = Returned () g'
           \<and> CURRENT_STATE g' = PRINT_CHECK
           \<and> CURRENT_PHOTO_PATH g' = Some (photo_path e)
           \<and> STATE_START g' = TOTAL_TIME g + dt
           \<and> TOTAL_TIME g' = TOTAL_TIME g + dt
           \<and> \<not> feed_running g' \<and> preview_running g'
           \<and> trace g' = trace g @
                [Terminate Video_feed, Wait Video_feed,
                 Check_call [''gphoto2'', ''--capture-image-and-download'', ''--filename'',
                             photo_path e],
                 Print (''took photo as '' @ photo_path e @ ''.''),
                 Popen Photo_preview [''feh'', ''-F'', photo_path e]] @ es
           \<and> list_all is_lamp_write es"
proof -
  from assms(1) have "handles_set g" "lamp_synced g"
    by (simp_all add: reachable_invariants)
  with assms(2) obtain l p where "BUTTON_LED g = Some l" "pin l = PIN_LED_BUTTON"
    "VIDEO_FEED_POPEN g = Some p"
    by (auto simp: handles_set_def lamp_synced_def)
  with assms(2,3,4) show ?thesis
    by (simp add: update_def op_defs Let_def feed_running_def preview_running_def)
qed

text \<open>
  Claim C4. Take a reachable state in the countdown and any sequence of ticks, presses and
  process exits in which no tick brings the time spent in the state above
  \<^const>\<open>COUNTDOWN_DURATION\<close>. The sequence runs to its end and the controller is still in the
  same countdown: same start, same photo path, the clock advanced by the ticks, and no
  effect but writes to the lamp. A press there changes nothing. The first tick that brings
  the time spent above the duration, with a capture that succeeds, returns in the photo
  check, and its effects are, in this order: terminate the feed and wait for it, run the
  capture, print the line about it, spawn the preview of the captured path; the path is
  stored and the start of the state is the clock. From that state no single event leads
  back to the countdown, so the transition is made once for this entry. A capture that
  fails raises instead (see \<^const>\<open>take_photo\<close>).
\<close>

theorem countdown_fires_once:
  assumes "reachable g" and "CURRENT_STATE g = COUNTDOWN"
    and "countdown_pending (STATE_START g) (TOTAL_TIME g) evs"
  shows "\<exists>g1 es1. run evs g = Returned () g1
           \<and> CURRENT_STATE g1 = COUNTDOWN \<and> STATE_START g1 = STATE_START g
           \<and> TOTAL_TIME g1 = TOTAL_TIME g + ticked evs
           \<and> CURRENT_PHOTO_PATH g1 = CURRENT_PHOTO_PATH g
           \<and> trace g1 = trace g @ es1 \<and> list_all is_lamp_write es1
           \<and> button_event g1 = Returned () g1
           \<and> (\<forall>dt e. TOTAL_TIME g1 + dt - STATE_START g1 > COUNTDOWN_DURATION \<and> capture_ok e \<longrightarrow>
                (\<exists>g2 es2. update dt e g1 = Returned () g2
                   \<and> CURRENT_STATE g2 = PRINT_CHECK
                   \<and> CURRENT_PHOTO_PATH g2 = Some (photo_path e)
                   \<and> STATE_START g2 = TOTAL_TIME g1 + dt
                   \<and> TOTAL_TIME g2 = TOTAL_TIME g1 + dt
                   \<and> \<not> feed_running g2 \<and> preview_running g2
                   \<and> trace g2 = trace g1 @
                        [Terminate Video_feed, Wait Video_feed,
                         Check_call [''gphoto2'', ''--capture-image-and-download'',
                                     ''--filename'', photo_path e],
                         Print (''took photo as '' @ photo_path e @ ''.''),
                         Popen Photo_preview [''feh'', ''-F'', photo_path e]] @ es2
                   \<and> list_all is_lamp_write es2
                   \<and> (\<forall>ev. CURRENT_STATE (state_of (step ev g2)) \<noteq> COUNTDOWN)))"
proof -
  from countdown_pending_run [OF assms] obtain g1 es1 where
    r: "run evs g = Returned () g1" and
    k: "CURRENT_STATE g1 = COUNTDOWN" "STATE_START g1 = STATE_START g"
      "TOTAL_TIME g1 = TOTAL_TIME g + ticked evs"
      "CURRENT_PHOTO_PATH g1 = CURRENT_PHOTO_PATH g"
      "trace g1 = trace g @ es1" "list_all is_lamp_write es1"
    by blast
  from assms(1) r have r1: "reachable g1"
    by (rule reachable_run)
  from k(1) have b: "button_event g1 = Returned () g1"
    by (simp add: button_event_def)
  have "\<exists>g2 es2. update dt e g1 = Returned () g2
                   \<and> CURRENT_STATE g2 = PRINT_CHECK
                   \<and> CURRENT_PHOTO_PATH g2 = Some (photo_path e)
                   \<and> STATE_START g2 = TOTAL_TIME g1 + dt
                   \<and> TOTAL_TIME g2 = TOTAL_TIME g1 + dt
                   \<and> \<not> feed_running g2 \<and> preview_running g2
                   \<and> trace g2 = trace g1 @
                        [Terminate Video_feed, Wait Video_feed,
                         Check_call [''gphoto2'', ''--capture-image-and-download'',
                                     ''--filename'', photo_path e],
                         Print (''took photo as '' @ photo_path e @ ''.''),
                         Popen Photo_preview [''feh'', ''-F'', photo_path e]] @ es2
                   \<and> list_all is_lamp_write es2
                   \<and> (\<forall>ev. CURRENT_STATE (state_of (step ev g2)) \<noteq> COUNTDOWN)"
    if f: "TOTAL_TIME g1 + dt - STATE_START g1 > COUNTDOWN_DURATION" and c: "capture_ok e"
    for dt e
  proof -
    from countdown_fires [OF r1 k(1) f c] obtain g2 es2 where
      u: "update dt e g1 = Returned () g2" and
      j: "CURRENT_STATE g2 = PRINT_CHECK" "CURRENT_PHOTO_PATH g2 = Some (photo_path e)"
        "STATE_START g2 = TOTAL_TIME g1 + dt" "TOTAL_TIME g2 = TOTAL_TIME g1 + dt"
        "\<not> feed_running g2" "preview_running g2"
        "trace g2 = trace g1 @
                        [Terminate Video_feed, Wait Video_feed,
                         Check_call [''gphoto2'', ''--capture-image-and-download'',
                                     ''--filename'', photo_path e],
                         Print (''took photo as '' @ photo_path e @ ''.''),
                         Popen Photo_preview [''feh'', ''-F'', photo_path e]] @ es2"
        "list_all is_lamp_write es2"
      by blast
    have "CURRENT_STATE (state_of (step ev g2)) \<noteq> COUNTDOWN" for ev
    proof (cases ev)
      case (Tick dt' e')
      from j(1) show ?thesis unfolding Tick
        by (auto simp: update_def op_defs Let_def split: option.splits)
    next
      case Press
      from j(1) show ?thesis unfolding Press
        by (auto simp: button_event_def op_defs Let_def split: option.splits)
    qed (simp_all add: j(1))
    with u j show ?thesis by blast
  qed
  with r k b show ?thesis by blast
qed

theorem countdown_fires_once_witness:
  "reachable in_countdown \<and> CURRENT_STATE in_countdown = COUNTDOWN
   \<and> countdown_pending (STATE_START in_countdown) (TOTAL_TIME in_countdown)
         [Tick 3 noon, Press, Tick 5 noon]
   \<and> CURRENT_STATE (state_of (run [Tick 3 noon, Press, Tick 5 noon] in_countdown)) = COUNTDOWN
   \<and> CURRENT_STATE
         (state_of (run ([Tick 3 noon, Press, Tick 5 noon] @ [Tick (1 / 10) noon]) in_countdown))
       = PRINT_CHECK"
proof -
  have p: "countdown_pending (STATE_START in_countdown) (TOTAL_TIME in_countdown)
             [Tick 3 noon, Press, Tick 5 noon]"
    by (simp add: in_countdown_fields COUNTDOWN_DURATION_def)
  from countdown_fires_once [OF in_countdown_reachable in_countdown_fields(2) p]
  obtain g1 where r: "run [Tick 3 noon, Press, Tick 5 noon] in_countdown = Returned () g1"
    and k: "CURRENT_STATE g1 = COUNTDOWN" "STATE_START g1 = STATE_START in_countdown"
      "TOTAL_TIME g1 = TOTAL_TIME in_countdown + ticked [Tick 3 noon, Press, Tick 5 noon]"
    and f: "\<And>dt e. TOTAL_TIME g1 + dt - STATE_START g1 > COUNTDOWN_DURATION \<and> capture_ok e
              \<Longrightarrow> \<exists>g2. update dt e g1 = Returned () g2 \<and> CURRENT_STATE g2 = PRINT_CHECK"
    by blast
  have "TOTAL_TIME g1 + 1 / 10 - STATE_START g1 > COUNTDOWN_DURATION \<and> capture_ok noon"
    by (simp add: k in_countdown_fields COUNTDOWN_DURATION_def noon_def)
  from f [OF this] obtain g2 where u: "update (1 / 10) noon g1 = Returned () g2"
    and j: "CURRENT_STATE g2 = PRINT_CHECK"
    by blast
  from u have a: "run [Tick (1 / 10) noon] g1 = Returned () g2"
    by simp
  have full: "run ([Tick 3 noon, Press, Tick 5 noon] @ [Tick (1 / 10) noon]) in_countdown
      = Returned () g2"
    by (simp only: run_append r outcome.case a)
  have c1: "CURRENT_STATE (state_of (run [Tick 3 noon, Press, Tick 5 noon] in_countdown))
      = COUNTDOWN"
    by (simp only: r state_of.simps k(1))
  have c2: "CURRENT_STATE
         (state_of (run ([Tick 3 noon, Press, Tick 5 noon] @ [Tick (1 / 10) noon]) in_countdown))
       = PRINT_CHECK"
    by (simp only: full state_of.simps j)
  from p c1 c2 in_countdown_reachable in_countdown_fields(2) show ?thesis
    by blast
qed

subsection \<open>The order of a tick\<close>

lemma spec_row_effects_no_lamp:
  "list_all (\<lambda>x. \<not> is_lamp_write x) (spec_row_effects s elapsed e photo)"
  by (cases s) (simp_all add: spec_row_effects_def)

lemma tick_observables:
  assumes "reachable g" and "update dt e g = Returned () g'"
  shows "TOTAL_TIME g' = TOTAL_TIME g + dt
         \<and> CURRENT_STATE g' = spec_next_state (CURRENT_STATE g) (TOTAL_TIME g + dt - STATE_START g)
         \<and> STATE_START g' =
             (if CURRENT_STATE g' = CURRENT_STATE g then STATE_START g else TOTAL_TIME g + dt)
         \<and> lamp_lit g' = spec_policy (CURRENT_STATE g') (TOTAL_TIME g + dt)
         \<and> lamp_after (trace g') = lamp_lit g'
         \<and> trace g' =
             trace g
             @ spec_row_effects (CURRENT_STATE g) (TOTAL_TIME g + dt - STATE_START g) e
                 (CURRENT_PHOTO_PATH g)
             @ spec_lamp_write (lamp_lit g) (lamp_lit g')
         \<and> list_all (\<lambda>x. \<not> is_lamp_write x)
               (spec_row_effects (CURRENT_STATE g) (TOTAL_TIME g + dt - STATE_START g) e
                  (CURRENT_PHOTO_PATH g))"
proof -
  from assms(1) have h: "handles_set g" and s: "lamp_synced g"
    by (simp_all add: reachable_invariants)
  then obtain l where l: "BUTTON_LED g = Some l" "pin l = PIN_LED_BUTTON"
    by (auto simp: handles_set_def lamp_synced_def)
  from s have "lamp_synced (state_of (step (Tick dt e) g))"
    by (rule lamp_synced_step)
  with assms(2) have sync: "lamp_synced g'"
    by simp
  have main: "TOTAL_TIME g' = TOTAL_TIME g + dt
         \<and> CURRENT_STATE g' = spec_next_state (CURRENT_STATE g) (TOTAL_TIME g + dt - STATE_START g)
         \<and> STATE_START g' =
             (if CURRENT_STATE g' = CURRENT_STATE g then STATE_START g else TOTAL_TIME g + dt)
         \<and> BUTTON_LED g' \<noteq> None
         \<and> lamp_lit g' = spec_policy (CURRENT_STATE g') (TOTAL_TIME g + dt)
         \<and> trace g' =
             trace g
             @ spec_row_effects (CURRENT_STATE g) (TOTAL_TIME g + dt - STATE_START g) e
                 (CURRENT_PHOTO_PATH g)
             @ spec_lamp_write (lamp_lit g) (lamp_lit g')"
  proof (cases "CURRENT_STATE g")
    case IDLE
    with h obtain p where "VIDEO_FEED_POPEN g = Some p"
      by (auto simp: handles_set_def)
    with IDLE l assms(2) show ?thesis
      by (cases p)
         (auto simp: update_def op_defs Let_def spec_next_state_def spec_row_effects_def
            spec_policy_def spec_lamp_write_def lamp_lit_def split: if_splits)
  next
    case COUNTDOWN
    with h obtain p where "VIDEO_FEED_POPEN g = Some p"
      by (auto simp: handles_set_def)
    with COUNTDOWN l assms(2) show ?thesis
      by (auto simp: update_def op_defs Let_def spec_next_state_def spec_row_effects_def
            spec_policy_def spec_lamp_write_def lamp_lit_def split: if_splits)
  next
    case PRINT_CHECK
    with h obtain p where "PHOTO_PREVIEW_POPEN g = Some p"
      by (auto simp: handles_set_def)
    with PRINT_CHECK l assms(2) show ?thesis
      by (auto simp: update_def op_defs Let_def spec_next_state_def spec_row_effects_def
            spec_policy_def spec_lamp_write_def lamp_lit_def split: if_splits)
  next
    case SLEEP
    with l assms(2) show ?thesis
      by (auto simp: update_def op_defs Let_def spec_next_state_def spec_row_effects_def
            spec_policy_def spec_lamp_write_def lamp_lit_def split: if_splits)
  qed
  then obtain l' where "BUTTON_LED g' = Some l'"
    by auto
  with sync have "lamp_after (trace g') = lamp_lit g'"
    by (simp add: lamp_synced_def lamp_lit_def)
  with main spec_row_effects_no_lamp show ?thesis
    by blast
qed

text \<open>
  Claim C8. A tick from a reachable state advances the clock by the time step, also when
  the call raises. When the call returns, everything observable is in the order of the
  specification. The state it ends in is the one the row of the state it started in leads
  to, for the advanced clock minus the start of the state. The level of the lamp, cached and
  on the pin, is the one the policy gives for the state the tick ends in and the advanced
  clock, whether or not the row made a transition. The trace gains the effects of the row,
  none of which writes to the lamp, and after them the write of the indicator, if the level
  changed.
\<close>

theorem update_follows_spec_order:
  assumes "reachable g"
  shows "TOTAL_TIME (state_of (update dt e g)) = TOTAL_TIME g + dt
         \<and> (update dt e g = Returned () g' \<longrightarrow>
              CURRENT_STATE g' =
                spec_next_state (CURRENT_STATE g) (TOTAL_TIME g + dt - STATE_START g)
              \<and> STATE_START g' =
                  (if CURRENT_STATE g' = CURRENT_STATE g then STATE_START g
                   else TOTAL_TIME g + dt)
              \<and> lamp_lit g' = spec_policy (CURRENT_STATE g') (TOTAL_TIME g + dt)
              \<and> lamp_after (trace g') = lamp_lit g'
              \<and> trace g' =
                  trace g
                  @ spec_row_effects (CURRENT_STATE g) (TOTAL_TIME g + dt - STATE_START g) e
                      (CURRENT_PHOTO_PATH g)
                  @ spec_lamp_write (lamp_lit g) (lamp_lit g')
              \<and> list_all (\<lambda>x. \<not> is_lamp_write x)
                    (spec_row_effects (CURRENT_STATE g) (TOTAL_TIME g + dt - STATE_START g) e
                       (CURRENT_PHOTO_PATH g)))"
proof -
  have "TOTAL_TIME (state_of (update dt e g)) = TOTAL_TIME g + dt"
    using step_total_time [of "Tick dt e" g] by simp
  with tick_observables [OF assms, of dt e g'] show ?thesis
    by blast
qed

theorem update_follows_spec_order_witness:
  "reachable in_countdown
   \<and> update 9 noon in_countdown = Returned () photo_taken
   \<and> CURRENT_STATE photo_taken = PRINT_CHECK
   \<and> STATE_START photo_taken = 9
   \<and> \<not> lamp_lit in_countdown
   \<and> lamp_lit photo_taken
   \<and> lamp_after (trace photo_taken)
   \<and> trace photo_taken =
       trace in_countdown
       @ [Terminate Video_feed, Wait Video_feed,
          Check_call [''gphoto2'', ''--capture-image-and-download'', ''--filename'',
                      ''4-12_5_9.jpg''],
          Print ''took photo as 4-12_5_9.jpg.'',
          Popen Photo_preview [''feh'', ''-F'', ''4-12_5_9.jpg'']]
       @ [GPIO_output PIN_LED_BUTTON 1]
   \<and> reachable in_idle
   \<and> update 1 noon in_idle = Returned () idle_ticked
   \<and> CURRENT_STATE idle_ticked = IDLE
   \<and> STATE_START idle_ticked = 0
   \<and> lamp_lit idle_ticked
   \<and> trace idle_ticked = trace in_idle @ [GPIO_output PIN_LED_BUTTON 1]"
proof -
  have ret: "update 9 noon in_countdown = Returned () photo_taken"
    by (simp add: photo_taken_def update_def op_defs Let_def in_countdown_fields const_defs
          noon_def)
  have dark: "\<not> lamp_lit in_countdown"
    by (simp add: lamp_lit_def in_countdown_fields)
  from update_follows_spec_order [OF in_countdown_reachable, THEN conjunct2, rule_format, OF ret]
  have fired: "CURRENT_STATE photo_taken = PRINT_CHECK
   \<and> STATE_START photo_taken = 9
   \<and> lamp_lit photo_taken
   \<and> lamp_after (trace photo_taken)
   \<and> trace photo_taken =
       trace in_countdown
       @ [Terminate Video_feed, Wait Video_feed,
          Check_call [''gphoto2'', ''--capture-image-and-download'', ''--filename'',
                      ''4-12_5_9.jpg''],
          Print ''took photo as 4-12_5_9.jpg.'',
          Popen Photo_preview [''feh'', ''-F'', ''4-12_5_9.jpg'']]
       @ [GPIO_output PIN_LED_BUTTON 1]"
    by (auto simp: in_countdown_fields spec_next_state_def spec_row_effects_def spec_policy_def
          spec_lamp_write_def lamp_lit_def photo_path_noon const_defs)
  have ret': "update 1 noon in_idle = Returned () idle_ticked"
    by (simp add: idle_ticked_def update_def op_defs Let_def in_idle_fields const_defs)
  from update_follows_spec_order [OF in_idle_reachable, THEN conjunct2, rule_format, OF ret']
  have stayed: "CURRENT_STATE idle_ticked = IDLE
   \<and> STATE_START idle_ticked = 0
   \<and> lamp_lit idle_ticked
   \<and> trace idle_ticked = trace in_idle @ [GPIO_output PIN_LED_BUTTON 1]"
    by (auto simp: in_idle_fields spec_next_state_def spec_row_effects_def spec_policy_def
          spec_lamp_write_def lamp_lit_def const_defs)
  from ret dark fired ret' stayed in_countdown_reachable in_idle_reachable show ?thesis
    by blast
qed

subsection \<open>Which calls raise\<close>

text \<open>
  From a reachable state a tick raises in two cases only: the feed has died while idle and
  the sleep timeout does not fire, or the capture at the end of the countdown fails. A
  press never raises.
\<close>

lemma tick_raises:
  assumes "reachable g"
  shows "raised (update dt e g) =
           (if CURRENT_STATE g = IDLE
               \<and> \<not> TOTAL_TIME g + dt - STATE_START g > TIME_BEFORE_SLEEP
               \<and> VIDEO_FEED_POPEN g = Some Exited
            then Some (RuntimeError ''Videofeed died unexpectedly.'')
            else if CURRENT_STATE g = COUNTDOWN
               \<and> TOTAL_TIME g + dt - STATE_START g > COUNTDOWN_DURATION
               \<and> \<not> capture_ok e
            then Some CalledProcessError
            else None)"
proof -
  from assms have h: "handles_set g"
    by (simp add: reachable_invariants)
  then obtain l where l: "BUTTON_LED g = Some l"
    by (auto simp: handles_set_def)
  show ?thesis
  proof (cases "CURRENT_STATE g")
    case IDLE
    with h obtain p where "VIDEO_FEED_POPEN g = Some p"
      by (auto simp: handles_set_def)
    with IDLE l show ?thesis
      by (cases p) (simp_all add: update_def op_defs Let_def)
  next
    case COUNTDOWN
    with h obtain p where "VIDEO_FEED_POPEN g = Some p"
      by (auto simp: handles_set_def)
    with COUNTDOWN l show ?thesis
      by (simp add: update_def op_defs Let_def)
  next
    case PRINT_CHECK
    with h obtain p where "PHOTO_PREVIEW_POPEN g = Some p"
      by (auto simp: handles_set_def)
    with PRINT_CHECK l show ?thesis
      by (simp add: update_def op_defs Let_def)
  next
    case SLEEP
    with l show ?thesis
      by (simp add: update_def op_defs Let_def)
  qed
qed

lemma press_returns: "reachable g \<Longrightarrow> raised (button_event g) = None"
proof -
  assume "reachable g"
  then have h: "handles_set g"
    by (simp add: reachable_invariants)
  show ?thesis
  proof (cases "CURRENT_STATE g")
    case PRINT_CHECK
    with h obtain p where "PHOTO_PREVIEW_POPEN g = Some p"
      by (auto simp: handles_set_def)
    with PRINT_CHECK show ?thesis
      by (simp add: button_event_def op_defs Let_def)
  qed (simp_all add: button_event_def op_defs Let_def)
qed

end
